theory Spec2Isabelle
  imports Main "HOL-Library.Char_ord" "HOL-Library.List_Lexorder" "HOL-Library.Multiset"
begin

section \<open>The migration runner of DRRMS (migrations/migrate.py)\<close>

text \<open>
  The runner lists a directory, keeps the names that look like migration scripts, skips
  the versions the tracking table \<open>_migrations\<close> marks as applied, and applies the
  others one by one, recording each outcome in the tracking table.

  Python strings are modelled as \<^typ>\<open>string\<close>: a list of characters, each character a
  code point below 256. Python orders strings by code point, shorter prefixes first;
  that is the order of \<open>HOL-Library.Char_ord\<close> and \<open>HOL-Library.List_Lexorder\<close>.
\<close>

subsection \<open>String methods of Python used by the runner\<close>

text \<open>\<open>str.isdigit\<close> on code points below 256: the decimal digits and the three superscript
  digits of Latin-1 (code points 178, 179 and 185).\<close>

definition isdigit :: "char \<Rightarrow> bool" where
  "isdigit c =
     (let n = (of_char c :: nat)
      in (48 \<le> n \<and> n \<le> 57) \<or> n = 178 \<or> n = 179 \<or> n = 185)"

text \<open>\<open>str.isspace\<close> on code points below 256; \<open>str.strip()\<close> removes these characters.\<close>

definition isspace :: "char \<Rightarrow> bool" where
  "isspace c =
     (let n = (of_char c :: nat)
      in (9 \<le> n \<and> n \<le> 13) \<or> (28 \<le> n \<and> n \<le> 32) \<or> n = 133 \<or> n = 160)"

definition strip :: "string \<Rightarrow> string" where
  "strip s = rev (dropWhile isspace (rev (dropWhile isspace s)))"

definition startswith :: "string \<Rightarrow> string \<Rightarrow> bool" where
  "startswith s p = (take (length p) s = p)"

definition endswith :: "string \<Rightarrow> string \<Rightarrow> bool" where
  "endswith s p = (length p \<le> length s \<and> drop (length s - length p) s = p)"

text \<open>\<open>sub in s\<close> for strings: \<open>sub\<close> occurs in \<open>s\<close> as a contiguous run.\<close>

fun contains :: "string \<Rightarrow> string \<Rightarrow> bool" where
  "contains sub [] = (sub = [])"
| "contains sub (c # cs) = (startswith (c # cs) sub \<or> contains sub cs)"

text \<open>\<open>s.split(sep)\<close> for a separator of one character: the fragments between the
  separators, empty ones included; the empty string gives one empty fragment.\<close>

function split :: "char \<Rightarrow> string \<Rightarrow> string list" where
  "split sep s =
     takeWhile (\<lambda>c. c \<noteq> sep) s #
     (case dropWhile (\<lambda>c. c \<noteq> sep) s of
        [] \<Rightarrow> []
      | _ # rest \<Rightarrow> split sep rest)"
  by pat_completeness auto
termination
proof (relation "measure (\<lambda>(sep, s). length s)")
  show "wf (measure (\<lambda>(sep :: char, s :: string). length s))"
    by simp
next
  fix sep :: char and s :: string and x21 :: char and rest :: string
  assume d: "dropWhile (\<lambda>c. c \<noteq> sep) s = x21 # rest"
  have "length (dropWhile (\<lambda>c. c \<noteq> sep) s) \<le> length s"
    by (rule length_dropWhile_le)
  with d show "((sep, rest), (sep, s)) \<in> measure (\<lambda>(sep, s). length s)"
    by simp
qed

declare split.simps [simp del]

text \<open>\<open>filename.replace('.sql', '')\<close>: every occurrence of \<open>.sql\<close> is removed, scanning
  from the left.\<close>

function replace_sql :: "string \<Rightarrow> string" where
  "replace_sql [] = []"
| "replace_sql (c # cs) =
     (if startswith (c # cs) ''.sql'' then replace_sql (drop 4 (c # cs))
      else c # replace_sql cs)"
  by pat_completeness auto
termination
  by (relation "measure length") auto

subsection \<open>Data\<close>

text \<open>The dictionary built for each discovered script.\<close>

record migration =
  version :: string
  name :: string
  filepath :: string

text \<open>The \<open>status\<close> enumeration of the tracking table.\<close>

datatype status = Pending | Applied | Failed | Rolled_back

text \<open>
  A row of \<open>_migrations\<close>. Columns that may be NULL are options. The surrogate key
  \<open>migration_id\<close> is never read or written by the runner and is left out. The table is
  a list of rows; \<open>version\<close> is its unique key, compared as a string.
\<close>

record row =
  row_version :: string
  row_name :: string
  applied_at :: "nat option"
  applied_by :: "string option"
  checksum :: "string option"
  execution_time_ms :: "int option"
  row_status :: status

text \<open>
  Everything outside the runner is a parameter: the directory listing, the files, the
  hash function, and the database server with its clock. The type \<open>'w\<close> is the state
  of the server apart from the tracking table. \<open>exec\<close> runs one statement of a script and
  returns the new state and, when the driver raises \<open>mysql.connector.Error\<close>, the text of
  the error (\<open>str(e)\<close>). \<open>read_file\<close> is \<open>None\<close> where opening or decoding
  the file raises.
\<close>

record 'w env =
  migrations_dir :: string
  listdir :: "string list"
  read_file :: "string \<Rightarrow> string option"
  md5_hexdigest :: "string \<Rightarrow> string"
  connectable :: bool
  exec :: "'w \<Rightarrow> string \<Rightarrow> 'w \<times> string option"
  current_timestamp :: "'w \<Rightarrow> nat"
  current_user :: "'w \<Rightarrow> string"
  time_ms :: "'w \<Rightarrow> int"

subsection \<open>The tracking table\<close>

text \<open>\<open>CREATE TABLE IF NOT EXISTS\<close>: an absent table (\<open>None\<close>) becomes the empty table.\<close>

definition ensure_migration_table :: "row list option \<Rightarrow> row list" where
  "ensure_migration_table t = (case t of None \<Rightarrow> [] | Some rows \<Rightarrow> rows)"

definition get_applied_migrations :: "row list \<Rightarrow> string set" where
  "get_applied_migrations rows =
     set (map row_version (filter (\<lambda>r. row_status r = Applied) rows))"

text \<open>\<open>INSERT ... ON DUPLICATE KEY UPDATE\<close>: the row with the same version is updated
  in place; without one, the new row is added.\<close>

fun upsert :: "row \<Rightarrow> (row \<Rightarrow> row) \<Rightarrow> row list \<Rightarrow> row list" where
  "upsert new upd [] = [new]"
| "upsert new upd (r # rs) =
     (if row_version r = row_version new then upd r # rs else r # upsert new upd rs)"

text \<open>The statement of the success path (lines 105 to 112).\<close>

definition record_applied ::
  "migration \<Rightarrow> string \<Rightarrow> int \<Rightarrow> nat \<Rightarrow> string \<Rightarrow> row list \<Rightarrow> row list" where
  "record_applied m cks execution_time now usr rows =
     upsert
       \<lparr>row_version = version m, row_name = name m, applied_at = Some now,
        applied_by = Some usr, checksum = Some cks,
        execution_time_ms = Some execution_time, row_status = Applied\<rparr>
       (\<lambda>r. r\<lparr>row_status := Applied, applied_at := Some now,
               execution_time_ms := Some execution_time\<rparr>)
       rows"

text \<open>The statement of the failure path (lines 119 to 123). A new row takes the column
  default \<open>CURRENT_TIMESTAMP\<close> for \<open>applied_at\<close>; an existing row has only its status set.\<close>

definition record_failed :: "migration \<Rightarrow> nat \<Rightarrow> row list \<Rightarrow> row list" where
  "record_failed m now rows =
     upsert
       \<lparr>row_version = version m, row_name = name m, applied_at = Some now,
        applied_by = None, checksum = None,
        execution_time_ms = None, row_status = Failed\<rparr>
       (\<lambda>r. r\<lparr>row_status := Failed\<rparr>)
       rows"

subsection \<open>Discovery\<close>

definition is_migration_file :: "string \<Rightarrow> bool" where
  "is_migration_file filename = (endswith filename ''.sql'' \<and> isdigit (hd filename))"

definition mk_migration :: "string \<Rightarrow> string \<Rightarrow> migration" where
  "mk_migration dir filename =
     \<lparr>version = hd (split (CHR ''_'') filename),
      name = replace_sql filename,
      filepath = dir @ ''/'' @ filename\<rparr>"

definition get_pending_migrations :: "string \<Rightarrow> string list \<Rightarrow> migration list" where
  "get_pending_migrations dir listing =
     map (mk_migration dir) (filter is_migration_file (sort listing))"

subsection \<open>Applying one script\<close>

definition statements :: "string \<Rightarrow> string list" where
  "statements sql_content =
     [strip s. s \<leftarrow> split (CHR '';'') sql_content, strip s \<noteq> []]"

definition is_executed :: "string \<Rightarrow> bool" where
  "is_executed statement =
     (statement \<noteq> [] \<and> \<not> startswith statement ''--'' \<and> \<not> startswith statement ''/*'')"

definition tolerated :: "string \<Rightarrow> bool" where
  "tolerated e = (\<not> (\<not> contains ''Duplicate'' e \<and> \<not> contains ''already exists'' e))"

text \<open>
  The loop over the statements. The result is the state of the server, the statements
  passed to \<open>cursor.execute\<close> in order, and the error that left the loop, if any.
\<close>

fun run_statements ::
  "('w \<Rightarrow> string \<Rightarrow> 'w \<times> string option) \<Rightarrow> 'w \<Rightarrow> string list
    \<Rightarrow> 'w \<times> string list \<times> string option" where
  "run_statements ex w [] = (w, [], None)"
| "run_statements ex w (statement # rest) =
     (if is_executed statement then
        (case ex w statement of
           (w', None) \<Rightarrow>
             (case run_statements ex w' rest of (w'', sent, r) \<Rightarrow> (w'', statement # sent, r))
         | (w', Some e) \<Rightarrow>
             if \<not> tolerated e then (w', [statement], Some e)
             else (case run_statements ex w' rest of
                     (w'', sent, r) \<Rightarrow> (w'', statement # sent, r)))
      else run_statements ex w rest)"

text \<open>
  Assumptions on the server. The statements of a script act on the state \<open>'w\<close> and
  not on the tracking table, which only the runner writes. The two statements with
  which the runner records an outcome succeed: the values fit their columns. Versions
  are compared as exact strings, as Python compares them.
\<close>

text \<open>An exception that is not a \<open>mysql.connector.Error\<close> is not caught by the runner.\<close>

datatype uncaught = FileError

record 'w applied_result =
  ok :: bool
  rows_after :: "row list"
  world_after :: 'w
  executed :: "string list"

definition apply_migration ::
  "'w env \<Rightarrow> row list \<Rightarrow> 'w \<Rightarrow> migration \<Rightarrow> uncaught + 'w applied_result" where
  "apply_migration env rows w m =
     (case read_file env (filepath m) of
        None \<Rightarrow> Inl FileError
      | Some sql_content \<Rightarrow>
          (case run_statements (exec env) w (statements sql_content) of
             (w', sent, None) \<Rightarrow>
               Inr \<lparr>ok = True,
                    rows_after =
                      record_applied m (md5_hexdigest env sql_content)
                        (time_ms env w' - time_ms env w)
                        (current_timestamp env w') (current_user env w') rows,
                    world_after = w', executed = sent\<rparr>
           | (w', sent, Some e) \<Rightarrow>
               Inr \<lparr>ok = False,
                    rows_after = record_failed m (current_timestamp env w') rows,
                    world_after = w', executed = sent\<rparr>))"

subsection \<open>The run\<close>

text \<open>One call of \<open>apply_migration\<close> made by the loop of \<open>migrate\<close>: the script, the
  statements passed to the cursor, and the value returned.\<close>

record attempt =
  script :: migration
  statements_run :: "string list"
  succeeded :: bool

record 'w run =
  run_rows :: "row list"
  run_world :: 'w
  attempts :: "attempt list"
  raised :: "uncaught option"

text \<open>The loop of lines 173 to 179: it stops at the first script that returns \<open>False\<close>,
  and an uncaught exception leaves it at once.\<close>

fun apply_all :: "'w env \<Rightarrow> row list \<Rightarrow> 'w \<Rightarrow> migration list \<Rightarrow> 'w run" where
  "apply_all env rows w [] =
     \<lparr>run_rows = rows, run_world = w, attempts = [], raised = None\<rparr>"
| "apply_all env rows w (m # ms) =
     (case apply_migration env rows w m of
        Inl x \<Rightarrow> \<lparr>run_rows = rows, run_world = w, attempts = [], raised = Some x\<rparr>
      | Inr r \<Rightarrow>
          if \<not> ok r then
            \<lparr>run_rows = rows_after r, run_world = world_after r,
             attempts = [\<lparr>script = m, statements_run = executed r, succeeded = False\<rparr>],
             raised = None\<rparr>
          else
            (let rest = apply_all env (rows_after r) (world_after r) ms
             in rest\<lparr>attempts :=
                  \<lparr>script = m, statements_run = executed r, succeeded = True\<rparr>
                  # attempts rest\<rparr>))"

text \<open>\<open>show_status\<close> selects every row, ordered by version.\<close>

definition show_status :: "row list \<Rightarrow> row list" where
  "show_status rows = sort_key row_version rows"

text \<open>What the process prints, line group by line group.\<close>

datatype printed =
    Header
  | ConnectionFailed
  | NoPending
  | Found nat
  | Applying attempt
  | Stopping
  | Complete
  | StatusTable "row list"
  | RollbackInstructions string
  | Usage
  | Traceback uncaught

record 'w outcome =
  tracking :: "row list option"
  world :: 'w
  attempted :: "attempt list"
  stdout :: "printed list"
  exit_code :: nat

definition attempt_lines :: "attempt \<Rightarrow> printed list" where
  "attempt_lines a = (if succeeded a then [Applying a] else [Applying a, Stopping])"

definition to_apply :: "'w env \<Rightarrow> row list \<Rightarrow> migration list" where
  "to_apply env rows =
     (let applied = get_applied_migrations rows;
          pending = get_pending_migrations (migrations_dir env) (listdir env)
      in filter (\<lambda>m. version m \<notin> applied) pending)"

text \<open>\<open>get_connection\<close> ends the process with exit code 1 when the server cannot be
  reached. An uncaught exception ends it with exit code 1 after the \<open>finally\<close> block.\<close>

definition migrate :: "'w env \<Rightarrow> row list option \<Rightarrow> 'w \<Rightarrow> 'w outcome" where
  "migrate env tbl w =
     (if \<not> connectable env then
        \<lparr>tracking = tbl, world = w, attempted = [],
         stdout = [Header, ConnectionFailed], exit_code = 1\<rparr>
      else
        (let rows = ensure_migration_table tbl;
             todo = to_apply env rows
         in if todo = [] then
              \<lparr>tracking = Some rows, world = w, attempted = [],
               stdout = [Header, NoPending, StatusTable (show_status rows)],
               exit_code = 0\<rparr>
            else
              (let r = apply_all env rows w todo;
                   shown = Header # Found (length todo) # concat (map attempt_lines (attempts r))
               in case raised r of
                    Some x \<Rightarrow>
                      \<lparr>tracking = Some (run_rows r), world = run_world r,
                       attempted = attempts r,
                       stdout = shown @ [Traceback x], exit_code = 1\<rparr>
                  | None \<Rightarrow>
                      \<lparr>tracking = Some (run_rows r), world = run_world r,
                       attempted = attempts r,
                       stdout = shown @ [Complete, StatusTable (show_status (run_rows r))],
                       exit_code = 0\<rparr>)))"

text \<open>The block under \<open>__main__\<close>; \<open>argv\<close> is \<open>sys.argv\<close>, the name of the script first.\<close>

definition main :: "'w env \<Rightarrow> string list \<Rightarrow> row list option \<Rightarrow> 'w \<Rightarrow> 'w outcome" where
  "main env argv tbl w =
     (if length argv > 1 then
        (let command = argv ! 1
         in if command = ''status'' then
              (if \<not> connectable env then
                 \<lparr>tracking = tbl, world = w, attempted = [],
                  stdout = [ConnectionFailed], exit_code = 1\<rparr>
               else
                 (let rows = ensure_migration_table tbl
                  in \<lparr>tracking = Some rows, world = w, attempted = [],
                      stdout = [StatusTable (show_status rows)], exit_code = 0\<rparr>))
            else if command = ''rollback'' \<and> length argv > 2 then
              \<lparr>tracking = tbl, world = w, attempted = [],
               stdout = [RollbackInstructions (argv ! 2)], exit_code = 0\<rparr>
            else
              \<lparr>tracking = tbl, world = w, attempted = [],
               stdout = [Usage], exit_code = 0\<rparr>)
      else migrate env tbl w)"

subsection \<open>Notions of the specification\<close>

text \<open>The decimal digits, and the number a version written in decimal digits stands for.\<close>

definition isdecimal :: "char \<Rightarrow> bool" where
  "isdecimal c = (48 \<le> (of_char c :: nat) \<and> (of_char c :: nat) \<le> 57)"

definition version_number :: "string \<Rightarrow> nat" where
  "version_number v = foldl (\<lambda>n c. 10 * n + (of_char c - 48)) 0 v"

text \<open>
  A fragment that is a pure comment, in the words of the specification: every line of it
  is blank or a \<open>--\<close> comment, or the whole fragment is one \<open>/* ... */\<close> comment.
\<close>

definition spec_pure_comment :: "string \<Rightarrow> bool" where
  "spec_pure_comment fragment =
     ((\<forall>l \<in> set (split (CHR 0x0A) fragment). strip l = [] \<or> startswith (strip l) ''--'')
      \<or> (startswith fragment ''/*'' \<and> endswith fragment ''*/'' \<and> 4 \<le> length fragment
          \<and> \<not> contains ''*/'' (butlast fragment)))"

text \<open>The statements the specification has a script execute: the fragments between the
  semicolons that are neither empty nor pure comments, in file order.\<close>

definition spec_statements :: "string \<Rightarrow> string list" where
  "spec_statements sql_content =
     [strip f. f \<leftarrow> split (CHR '';'') sql_content, strip f \<noteq> [],
               \<not> spec_pure_comment (strip f)]"

subsection \<open>Concrete scenarios\<close>

text \<open>
  A server whose state is the number of statements it has been sent; its clock advances
  with each statement. \<open>succeed\<close> accepts every statement; \<open>conflicts\<close> rejects two.
\<close>

definition succeed :: "nat \<Rightarrow> string \<Rightarrow> nat \<times> string option" where
  "succeed w statement = (Suc w, None)"

definition conflicts :: "nat \<Rightarrow> string \<Rightarrow> nat \<times> string option" where
  "conflicts w statement =
     (if statement = ''CREATE TABLE Foo (id INT)''
        then (Suc w, Some ''1050 (42S01): Table Foo already exists'')
      else if statement = ''DROP TABLE Bar''
        then (Suc w, Some ''1051 (42S02): Unknown table Bar'')
      else (Suc w, None))"

definition scenario ::
  "string list \<Rightarrow> (string \<times> string) list \<Rightarrow> (nat \<Rightarrow> string \<Rightarrow> nat \<times> string option)
    \<Rightarrow> nat env" where
  "scenario listing files ex =
     \<lparr>migrations_dir = ''/db'',
      listdir = listing,
      read_file = map_of files,
      md5_hexdigest = (\<lambda>content. ''md5:'' @ content),
      connectable = True,
      exec = ex,
      current_timestamp = (\<lambda>w. 100 + w),
      current_user = (\<lambda>w. ''root@localhost''),
      time_ms = (\<lambda>w. 1000 * int w)\<rparr>"

definition three_listing :: "string list" where
  "three_listing = [''003_more.sql'', ''migrate.py'', ''001_init.sql'', ''002_drop.sql'']"

definition three_files :: "(string \<times> string) list" where
  "three_files =
     [(''/db/001_init.sql'',
       ''CREATE TABLE Foo (id INT);\<newline>INSERT INTO Foo VALUES (1);\<newline>''),
      (''/db/002_drop.sql'',
       ''INSERT INTO Foo VALUES (2);\<newline>DROP TABLE Bar;\<newline>SELECT 1;\<newline>''),
      (''/db/003_more.sql'',
       ''INSERT INTO Foo VALUES (3);\<newline>'')]"

text \<open>Three scripts on a server where the second script fails.\<close>

definition halting_env :: "nat env" where
  "halting_env = scenario three_listing three_files conflicts"

text \<open>The same three scripts on a server that accepts everything.\<close>

definition smooth_env :: "nat env" where
  "smooth_env = scenario three_listing three_files succeed"

text \<open>A tracking row that marks version \<open>001\<close> as applied.\<close>

definition applied_001 :: row where
  "applied_001 =
     \<lparr>row_version = ''001'', row_name = ''001_init'', applied_at = Some 7,
      applied_by = Some ''root@localhost'', checksum = Some ''md5:'',
      execution_time_ms = Some 12, row_status = Applied\<rparr>"

text \<open>Two scripts whose version prefixes are not padded to one width.\<close>

definition unpadded_env :: "nat env" where
  "unpadded_env =
     scenario [''1_a.sql'', ''10_b.sql'']
       [(''/db/1_a.sql'', ''CREATE TABLE Foo (id INT);''),
        (''/db/10_b.sql'', ''INSERT INTO Foo VALUES (1);'')]
       succeed"

text \<open>A script whose first statement follows a comment line.\<close>

definition commented_file :: string where
  "commented_file =
     ''-- create the table\<newline>CREATE TABLE Foo (id INT);\<newline>INSERT INTO Foo VALUES (1);\<newline>''"

definition commented_env :: "nat env" where
  "commented_env = scenario [''001_init.sql''] [(''/db/001_init.sql'', commented_file)] succeed"

text \<open>A tracking row for version \<open>002\<close> as the rollback instructions leave it.\<close>

definition rolled_back_002 :: row where
  "rolled_back_002 =
     \<lparr>row_version = ''002'', row_name = ''002_drop'', applied_at = Some 50,
      applied_by = Some ''root@localhost'', checksum = Some ''md5:'',
      execution_time_ms = Some 12, row_status = Rolled_back\<rparr>"

lemmas scenario_defs =
  halting_env_def smooth_env_def scenario_def three_listing_def three_files_def
  succeed_def conflicts_def

lemmas runner_defs =
  main_def migrate_def to_apply_def ensure_migration_table_def get_applied_migrations_def
  get_pending_migrations_def is_migration_file_def mk_migration_def apply_migration_def
  statements_def is_executed_def tolerated_def record_applied_def record_failed_def
  show_status_def attempt_lines_def

lemmas string_defs =
  endswith_def startswith_def isdigit_def isspace_def strip_def split.simps

section \<open>Properties\<close>

subsection \<open>Strings\<close>

lemma startswith_iff: "startswith s p \<longleftrightarrow> (\<exists>q. s = p @ q)"
  unfolding startswith_def
  by (metis append_eq_conv_conj append_take_drop_id)

lemma endswith_iff: "endswith s p \<longleftrightarrow> (\<exists>q. s = q @ p)"
proof
  assume "endswith s p"
  then have "s = take (length s - length p) s @ p"
    unfolding endswith_def by (metis append_take_drop_id)
  then show "\<exists>q. s = q @ p" ..
next
  assume "\<exists>q. s = q @ p"
  then show "endswith s p"
    unfolding endswith_def by auto
qed

text \<open>\<open>contains\<close> decides the substring test \<open>sub in s\<close>.\<close>

lemma contains_iff: "contains sub s \<longleftrightarrow> (\<exists>p q. s = p @ sub @ q)"
proof (induction s)
  case Nil
  then show ?case by auto
next
  case (Cons c cs)
  show ?case
  proof
    assume "contains sub (c # cs)"
    then consider "startswith (c # cs) sub" | "contains sub cs" by auto
    then show "\<exists>p q. c # cs = p @ sub @ q"
    proof cases
      case 1
      then obtain q where "c # cs = sub @ q" using startswith_iff by blast
      then have "c # cs = [] @ sub @ q" by simp
      then show ?thesis by blast
    next
      case 2
      then obtain p q where "cs = p @ sub @ q" using Cons.IH by blast
      then have "c # cs = (c # p) @ sub @ q" by simp
      then show ?thesis by blast
    qed
  next
    assume "\<exists>p q. c # cs = p @ sub @ q"
    then obtain p q where pq: "c # cs = p @ sub @ q" by blast
    show "contains sub (c # cs)"
    proof (cases p)
      case Nil
      with pq have "startswith (c # cs) sub" using startswith_iff by auto
      then show ?thesis by simp
    next
      case (Cons a p')
      with pq have "cs = p' @ sub @ q" by simp
      then have "contains sub cs" using Cons.IH by blast
      then show ?thesis by simp
    qed
  qed
qed

lemma tolerated_iff:
  "tolerated e \<longleftrightarrow>
     (\<exists>p q. e = p @ ''Duplicate'' @ q) \<or> (\<exists>p q. e = p @ ''already exists'' @ q)"
  unfolding tolerated_def contains_iff by blast

subsection \<open>The tracking table\<close>

lemma find_upsert:
  "row_version new = v \<Longrightarrow> (\<And>r. row_version (upd r) = row_version r) \<Longrightarrow>
   find (\<lambda>r. row_version r = v) (upsert new upd rows) =
     Some (case find (\<lambda>r. row_version r = v) rows of None \<Rightarrow> new | Some r \<Rightarrow> upd r)"
  by (induction rows) auto

lemma find_record_failed:
  "map_option row_status (find (\<lambda>r. row_version r = version m) (record_failed m now rows))
     = Some Failed"
  unfolding record_failed_def
  by (subst find_upsert) (auto split: option.splits)

lemma set_upsert:
  "r \<in> set (upsert new upd rows) \<Longrightarrow>
   r \<in> set rows \<or> r = new \<or> (\<exists>r0 \<in> set rows. r = upd r0)"
  by (induction rows) (auto split: if_splits)

lemma applied_upsert:
  assumes "row_status new = Applied"
    and "\<And>r. row_status (upd r) = Applied"
    and "\<And>r. row_version (upd r) = row_version r"
  shows "get_applied_migrations (upsert new upd rows) =
           insert (row_version new) (get_applied_migrations rows)"
proof (induction rows)
  case Nil
  show ?case using assms(1) by (simp add: get_applied_migrations_def)
next
  case (Cons a rows)
  show ?case
  proof (cases "row_version a = row_version new")
    case True
    have "get_applied_migrations (upd a # rows) =
            insert (row_version new) (get_applied_migrations rows)"
      using True assms(2,3) by (simp add: get_applied_migrations_def)
    moreover have "get_applied_migrations (a # rows) \<subseteq>
            insert (row_version new) (get_applied_migrations rows)"
      using True by (auto simp: get_applied_migrations_def)
    moreover have "get_applied_migrations rows \<subseteq> get_applied_migrations (a # rows)"
      by (auto simp: get_applied_migrations_def)
    ultimately show ?thesis using True by auto
  next
    case False
    have "get_applied_migrations (a # upsert new upd rows) =
            insert (row_version new) (get_applied_migrations (a # rows))"
      using Cons.IH by (auto simp: get_applied_migrations_def)
    with False show ?thesis by simp
  qed
qed

lemma applied_record_applied:
  "get_applied_migrations (record_applied m cks t now usr rows) =
     insert (version m) (get_applied_migrations rows)"
  unfolding record_applied_def by (subst applied_upsert) simp_all

subsection \<open>One script\<close>

lemma run_statements_append:
  "run_statements ex w (xs @ ys) =
     (case run_statements ex w xs of
        (w1, sent1, None) \<Rightarrow>
          (case run_statements ex w1 ys of (w2, sent2, r) \<Rightarrow> (w2, sent1 @ sent2, r))
      | (w1, sent1, Some e) \<Rightarrow> (w1, sent1, Some e))"
proof (induction xs arbitrary: w)
  case Nil
  then show ?case by (simp split: prod.splits)
next
  case (Cons x xs)
  show ?case
    by (simp add: Cons.IH split: prod.splits option.splits)
qed

lemma apply_migration_cases:
  assumes "apply_migration env rows w m = Inr res"
  obtains (success) cks t now usr
    where "ok res" "rows_after res = record_applied m cks t now usr rows"
  | (failure) now
    where "\<not> ok res" "rows_after res = record_failed m now rows"
  using assms unfolding apply_migration_def
  by (auto split: option.splits prod.splits)

text \<open>
  C5. When a statement of a script raises a database error, the loop goes on with the next
  statement exactly when the text of the error contains \<open>Duplicate\<close> or
  \<open>already exists\<close>; with any other error the statements after it are not executed
  and the script is recorded as failed.
\<close>

theorem statement_error_policy:
  assumes "read_file env (filepath m) = Some sql_content"
    and "statements sql_content = pre @ s # post"
    and "run_statements (exec env) w pre = (w1, sent1, None)"
    and "is_executed s"
    and "exec env w1 s = (w2, Some e)"
  shows "if contains ''Duplicate'' e \<or> contains ''already exists'' e
         then run_statements (exec env) w (statements sql_content) =
                (case run_statements (exec env) w2 post of
                   (w3, sent3, r) \<Rightarrow> (w3, sent1 @ s # sent3, r))
         else run_statements (exec env) w (statements sql_content) = (w2, sent1 @ [s], Some e)
              \<and> (\<exists>res. apply_migration env rows w m = Inr res \<and> \<not> ok res
                    \<and> executed res = sent1 @ [s]
                    \<and> map_option row_status
                         (find (\<lambda>r. row_version r = version m) (rows_after res))
                        = Some Failed)"
proof (cases "contains ''Duplicate'' e \<or> contains ''already exists'' e")
  case True
  then have t: "tolerated e" by (simp add: tolerated_def)
  have "run_statements (exec env) w1 (s # post) =
          (case run_statements (exec env) w2 post of (w3, sent3, r) \<Rightarrow> (w3, s # sent3, r))"
    using assms(4,5) t by simp
  then show ?thesis
    using True assms(2,3) by (simp add: run_statements_append split: prod.splits)
next
  case False
  then have t: "\<not> tolerated e" by (simp add: tolerated_def)
  have "run_statements (exec env) w1 (s # post) = (w2, [s], Some e)"
    using assms(4,5) t by simp
  then have run:
    "run_statements (exec env) w (statements sql_content) = (w2, sent1 @ [s], Some e)"
    using assms(2,3) by (simp add: run_statements_append)
  then have "apply_migration env rows w m =
     Inr \<lparr>ok = False, rows_after = record_failed m (current_timestamp env w2) rows,
          world_after = w2, executed = sent1 @ [s]\<rparr>"
    using assms(1) by (simp add: apply_migration_def)
  then show ?thesis
    using False run find_record_failed [of m "current_timestamp env w2" rows] by simp
qed

theorem statement_error_policy_witness:
  "run_statements (exec halting_env) 0
      (statements ''CREATE TABLE Foo (id INT);\<newline>INSERT INTO Foo VALUES (1);\<newline>'')
     = (2, [''CREATE TABLE Foo (id INT)'', ''INSERT INTO Foo VALUES (1)''], None)
   \<and> run_statements (exec halting_env) 2
      (statements ''INSERT INTO Foo VALUES (2);\<newline>DROP TABLE Bar;\<newline>SELECT 1;\<newline>'')
     = (4, [''INSERT INTO Foo VALUES (2)'', ''DROP TABLE Bar''],
        Some ''1051 (42S02): Unknown table Bar'')
   \<and> (\<exists>res. apply_migration halting_env [] 2 (mk_migration ''/db'' ''002_drop.sql'') = Inr res
          \<and> \<not> ok res
          \<and> executed res = [''INSERT INTO Foo VALUES (2)'', ''DROP TABLE Bar'']
          \<and> map_option row_status
               (find (\<lambda>r. row_version r = ''002'') (rows_after res)) = Some Failed)"
proof -
  let ?m1 = "mk_migration ''/db'' ''001_init.sql''"
  let ?m2 = "mk_migration ''/db'' ''002_drop.sql''"
  let ?c1 = "''CREATE TABLE Foo (id INT);\<newline>INSERT INTO Foo VALUES (1);\<newline>''"
  let ?c2 = "''INSERT INTO Foo VALUES (2);\<newline>DROP TABLE Bar;\<newline>SELECT 1;\<newline>''"
  have a1: "read_file halting_env (filepath ?m1) = Some ?c1"
    by (simp add: scenario_defs mk_migration_def)
  have a2: "statements ?c1 = [] @ ''CREATE TABLE Foo (id INT)'' # [''INSERT INTO Foo VALUES (1)'']"
    by (simp add: statements_def string_defs)
  have a3: "run_statements (exec halting_env) 0 [] = (0, [], None)"
    by simp
  have a4: "is_executed ''CREATE TABLE Foo (id INT)''"
    by (simp add: is_executed_def startswith_def)
  have a5: "exec halting_env 0 ''CREATE TABLE Foo (id INT)''
              = (1, Some ''1050 (42S01): Table Foo already exists'')"
    by (simp add: scenario_defs)
  have b1: "read_file halting_env (filepath ?m2) = Some ?c2"
    by (simp add: scenario_defs mk_migration_def)
  have b2: "statements ?c2 = [''INSERT INTO Foo VALUES (2)''] @ ''DROP TABLE Bar'' # [''SELECT 1'']"
    by (simp add: statements_def string_defs)
  have b3: "run_statements (exec halting_env) 2 [''INSERT INTO Foo VALUES (2)'']
              = (3, [''INSERT INTO Foo VALUES (2)''], None)"
    by (simp add: scenario_defs is_executed_def startswith_def)
  have b4: "is_executed ''DROP TABLE Bar''"
    by (simp add: is_executed_def startswith_def)
  have b5: "exec halting_env 3 ''DROP TABLE Bar'' = (4, Some ''1051 (42S02): Unknown table Bar'')"
    by (simp add: scenario_defs)
  have v: "version ?m2 = ''002''"
    by (simp add: mk_migration_def split.simps)
  have c1: "contains ''already exists'' ''1050 (42S01): Table Foo already exists''"
    by (simp add: startswith_def)
  have c2: "\<not> (contains ''Duplicate'' ''1051 (42S02): Unknown table Bar''
              \<or> contains ''already exists'' ''1051 (42S02): Unknown table Bar'')"
    by (simp add: startswith_def)
  have r: "run_statements (exec halting_env) 1 [''INSERT INTO Foo VALUES (1)'']
             = (2, [''INSERT INTO Foo VALUES (1)''], None)"
    by (simp add: scenario_defs is_executed_def startswith_def)
  from statement_error_policy [OF a1 a2 a3 a4 a5, of "[]"] c1 r
  have first: "run_statements (exec halting_env) 0 (statements ?c1)
     = (2, [''CREATE TABLE Foo (id INT)'', ''INSERT INTO Foo VALUES (1)''], None)"
    by simp
  from statement_error_policy [OF b1 b2 b3 b4 b5, of "[]"] c2 v
  have second: "run_statements (exec halting_env) 2 (statements ?c2)
     = (4, [''INSERT INTO Foo VALUES (2)'', ''DROP TABLE Bar''],
        Some ''1051 (42S02): Unknown table Bar'')
   \<and> (\<exists>res. apply_migration halting_env [] 2 ?m2 = Inr res
          \<and> \<not> ok res
          \<and> executed res = [''INSERT INTO Foo VALUES (2)'', ''DROP TABLE Bar'']
          \<and> map_option row_status
               (find (\<lambda>r. row_version r = ''002'') (rows_after res)) = Some Failed)"
    by simp
  from first second show ?thesis by blast
qed

subsection \<open>The loop over the scripts\<close>

lemma attempts_prefix:
  "map script (attempts (apply_all env rows w ms)) =
     take (length (attempts (apply_all env rows w ms))) ms"
  by (induction ms arbitrary: rows w) (auto split: sum.splits simp: Let_def)

lemma failed_attempt_is_last:
  "k < length (attempts (apply_all env rows w ms)) \<Longrightarrow>
   \<not> succeeded (attempts (apply_all env rows w ms) ! k) \<Longrightarrow>
   length (attempts (apply_all env rows w ms)) = Suc k"
proof (induction ms arbitrary: rows w k)
  case Nil
  then show ?case by simp
next
  case (Cons m ms)
  show ?case
  proof (cases "apply_migration env rows w m")
    case (Inl x)
    with Cons.prems show ?thesis by simp
  next
    case (Inr res)
    show ?thesis
    proof (cases "ok res")
      case False
      with Inr Cons.prems show ?thesis by simp
    next
      case True
      show ?thesis
      proof (cases k)
        case 0
        with True Inr Cons.prems show ?thesis by (simp add: Let_def)
      next
        case (Suc j)
        with True Inr Cons.prems Cons.IH [of j "rows_after res" "world_after res"]
        show ?thesis by (simp add: Let_def)
      qed
    qed
  qed
qed

lemma failed_attempt_recorded:
  "k < length (attempts (apply_all env rows w ms)) \<Longrightarrow>
   \<not> succeeded (attempts (apply_all env rows w ms) ! k) \<Longrightarrow>
   raised (apply_all env rows w ms) = None \<and>
   map_option row_status
     (find (\<lambda>r. row_version r = version (ms ! k)) (run_rows (apply_all env rows w ms)))
     = Some Failed"
proof (induction ms arbitrary: rows w k)
  case Nil
  then show ?case by simp
next
  case (Cons m ms)
  show ?case
  proof (cases "apply_migration env rows w m")
    case (Inl x)
    with Cons.prems show ?thesis by simp
  next
    case (Inr res)
    show ?thesis
    proof (cases "ok res")
      case False
      from Inr False obtain now where "rows_after res = record_failed m now rows"
        by (auto elim: apply_migration_cases)
      with False Inr Cons.prems find_record_failed [of m now rows]
      show ?thesis by simp
    next
      case True
      show ?thesis
      proof (cases k)
        case 0
        with True Inr Cons.prems show ?thesis by (simp add: Let_def)
      next
        case (Suc j)
        with True Inr Cons.prems Cons.IH [of j "rows_after res" "world_after res"]
        show ?thesis by (simp add: Let_def)
      qed
    qed
  qed
qed

lemma all_succeeded:
  "raised (apply_all env rows w ms) = None \<Longrightarrow>
   \<forall>a \<in> set (attempts (apply_all env rows w ms)). succeeded a \<Longrightarrow>
   get_applied_migrations (run_rows (apply_all env rows w ms)) =
     get_applied_migrations rows \<union> set (map version ms)"
proof (induction ms arbitrary: rows w)
  case Nil
  then show ?case by simp
next
  case (Cons m ms)
  show ?case
  proof (cases "apply_migration env rows w m")
    case (Inl x)
    with Cons.prems show ?thesis by simp
  next
    case (Inr res)
    show ?thesis
    proof (cases "ok res")
      case False
      with Inr Cons.prems show ?thesis by simp
    next
      case True
      from Inr True obtain cks t now usr
        where ra: "rows_after res = record_applied m cks t now usr rows"
        by (auto elim: apply_migration_cases)
      from True Inr Cons.prems
      have "get_applied_migrations (run_rows (apply_all env (rows_after res) (world_after res) ms))
              = get_applied_migrations (rows_after res) \<union> set (map version ms)"
        by (intro Cons.IH) (simp_all add: Let_def)
      with True Inr ra show ?thesis
        by (simp add: Let_def applied_record_applied)
    qed
  qed
qed

lemma written_status:
  "r \<in> set (run_rows (apply_all env rows w ms)) \<Longrightarrow>
   r \<in> set rows \<or> row_status r = Applied \<or> row_status r = Failed"
proof (induction ms arbitrary: rows w)
  case Nil
  then show ?case by simp
next
  case (Cons m ms)
  show ?case
  proof (cases "apply_migration env rows w m")
    case (Inl x)
    with Cons.prems show ?thesis by simp
  next
    case (Inr res)
    have step: "r' \<in> set (rows_after res) \<Longrightarrow>
                r' \<in> set rows \<or> row_status r' = Applied \<or> row_status r' = Failed" for r'
      using Inr
      by (auto elim!: apply_migration_cases dest!: set_upsert
               simp: record_applied_def record_failed_def)
    show ?thesis
    proof (cases "ok res")
      case False
      with Inr Cons.prems step show ?thesis by simp
    next
      case True
      with Inr Cons.prems
      have "r \<in> set (run_rows (apply_all env (rows_after res) (world_after res) ms))"
        by (simp add: Let_def)
      then have "r \<in> set (rows_after res) \<or> row_status r = Applied \<or> row_status r = Failed"
        by (rule Cons.IH)
      with step show ?thesis by blast
    qed
  qed
qed


lemma attempts_subset:
  "script ` set (attempts (apply_all env rows w ms)) \<subseteq> set ms"
proof -
  have "set (map script (attempts (apply_all env rows w ms))) \<subseteq> set ms"
    by (subst attempts_prefix) (rule set_take_subset)
  then show ?thesis by simp
qed

lemma filepath_determines:
  assumes "m \<in> set (get_pending_migrations dir listing)"
    and "m' \<in> set (get_pending_migrations dir listing)"
    and "filepath m = filepath m'"
  shows "m = m'"
  using assms by (auto simp: get_pending_migrations_def mk_migration_def)

lemma apply_all_same_services:
  assumes "\<forall>m \<in> set ms. read_file env' (filepath m) = read_file env (filepath m)"
    and "exec env' = exec env"
    and "md5_hexdigest env' = md5_hexdigest env"
    and "current_timestamp env' = current_timestamp env"
    and "current_user env' = current_user env"
    and "time_ms env' = time_ms env"
  shows "apply_all env' rows w ms = apply_all env rows w ms"
  using assms(1)
proof (induction ms arbitrary: rows w)
  case Nil
  then show ?case by simp
next
  case (Cons m ms)
  have am: "apply_migration env' rows w m = apply_migration env rows w m"
    using Cons.prems assms(2-)
    by (simp add: apply_migration_def cong: option.case_cong prod.case_cong)
  have ih: "apply_all env' rows' w' ms = apply_all env rows' w' ms" for rows' w'
    using Cons.prems by (intro Cons.IH) simp
  show ?case
  proof (cases "apply_migration env rows w m")
    case (Inl x)
    with am show ?thesis by simp
  next
    case (Inr r)
    with am ih show ?thesis by (simp add: Let_def)
  qed
qed

subsection \<open>The run\<close>

lemma migrate_unreachable:
  "\<not> connectable env \<Longrightarrow>
   migrate env tbl w =
     \<lparr>tracking = tbl, world = w, attempted = [],
      stdout = [Header, ConnectionFailed], exit_code = 1\<rparr>"
  by (simp add: migrate_def)

lemma migrate_attempted:
  "connectable env \<Longrightarrow>
   attempted (migrate env tbl w) =
     attempts (apply_all env (ensure_migration_table tbl) w
                 (to_apply env (ensure_migration_table tbl)))"
  by (simp add: migrate_def Let_def split: option.splits)

lemma migrate_tracking:
  "connectable env \<Longrightarrow>
   tracking (migrate env tbl w) =
     Some (run_rows (apply_all env (ensure_migration_table tbl) w
                 (to_apply env (ensure_migration_table tbl))))"
  by (simp add: migrate_def Let_def split: option.splits)

lemma migrate_world:
  "connectable env \<Longrightarrow>
   world (migrate env tbl w) =
     run_world (apply_all env (ensure_migration_table tbl) w
                 (to_apply env (ensure_migration_table tbl)))"
  by (simp add: migrate_def Let_def split: option.splits)

lemma migrate_report:
  "connectable env \<Longrightarrow>
   raised (apply_all env (ensure_migration_table tbl) w
             (to_apply env (ensure_migration_table tbl))) = None \<Longrightarrow>
   exit_code (migrate env tbl w) = 0 \<and>
   last (stdout (migrate env tbl w)) =
     StatusTable (show_status (run_rows (apply_all env (ensure_migration_table tbl) w
                 (to_apply env (ensure_migration_table tbl)))))"
  by (simp add: migrate_def Let_def)

lemma migrate_exit_code:
  "exit_code (migrate env tbl w) = 0 \<longleftrightarrow>
   connectable env \<and>
   raised (apply_all env (ensure_migration_table tbl) w
             (to_apply env (ensure_migration_table tbl))) = None"
  by (simp add: migrate_def Let_def split: option.splits)

lemma migrate_same_services:
  assumes "apply_all env' (ensure_migration_table tbl) w (to_apply env (ensure_migration_table tbl))
             = apply_all env (ensure_migration_table tbl) w (to_apply env (ensure_migration_table tbl))"
    and "to_apply env' (ensure_migration_table tbl) = to_apply env (ensure_migration_table tbl)"
    and "connectable env' = connectable env"
  shows "migrate env' tbl w = migrate env tbl w"
  unfolding migrate_def Let_def assms ..

lemma migrate_nothing_to_do:
  "connectable env \<Longrightarrow> to_apply env rows = [] \<Longrightarrow>
   migrate env (Some rows) w =
     \<lparr>tracking = Some rows, world = w, attempted = [],
      stdout = [Header, NoPending, StatusTable (show_status rows)], exit_code = 0\<rparr>"
  by (simp add: migrate_def ensure_migration_table_def Let_def)

text \<open>
  C7 (amended). An invocation whose first argument is not \<open>status\<close> and is not
  \<open>rollback\<close> followed by a version prints the usage line; it touches nothing and the
  process ends normally, with exit code 0.
\<close>

theorem other_invocation_prints_usage:
  assumes "1 < length argv"
    and "argv ! 1 \<noteq> ''status''"
    and "\<not> (argv ! 1 = ''rollback'' \<and> 2 < length argv)"
  shows "stdout (main env argv tbl w) = [Usage]
       \<and> exit_code (main env argv tbl w) = 0
       \<and> attempted (main env argv tbl w) = []
       \<and> tracking (main env argv tbl w) = tbl"
  using assms by (simp add: main_def Let_def)

theorem other_invocation_prints_usage_witness:
  "1 < length [''migrate.py'', ''rollback'']
   \<and> [''migrate.py'', ''rollback''] ! 1 \<noteq> ''status''
   \<and> \<not> ([''migrate.py'', ''rollback''] ! 1 = ''rollback'' \<and> 2 < length [''migrate.py'', ''rollback''])
   \<and> stdout (main smooth_env [''migrate.py'', ''rollback''] None 0) = [Usage]
   \<and> exit_code (main smooth_env [''migrate.py'', ''rollback''] None 0) = 0"
  using other_invocation_prints_usage [of "[''migrate.py'', ''rollback'']" smooth_env None 0]
  by simp

theorem usage_exit_code_counterexample:
  "stdout (main smooth_env [''migrate.py'', ''bogus''] None 0) = [Usage]
   \<and> \<not> exit_code (main smooth_env [''migrate.py'', ''bogus''] None 0) \<noteq> 0"
  by (simp add: main_def)

text \<open>
  C10. A row of the tracking table that the runner has written or updated has status
  \<open>applied\<close> or \<open>failed\<close>: after any invocation, every row is a row that was there
  before or has one of these two statuses. The \<open>rollback\<close> command leaves the table and
  the server as they were.
\<close>

theorem runner_writes_applied_or_failed:
  "(\<forall>r \<in> set (ensure_migration_table (tracking (main env argv tbl w))).
      r \<in> set (ensure_migration_table tbl) \<or> row_status r = Applied \<or> row_status r = Failed)
   \<and> (1 < length argv \<and> argv ! 1 = ''rollback'' \<longrightarrow>
        tracking (main env argv tbl w) = tbl \<and> world (main env argv tbl w) = w)"
proof -
  have m: "r \<in> set (ensure_migration_table (tracking (migrate env tbl w))) \<Longrightarrow>
        r \<in> set (ensure_migration_table tbl) \<or> row_status r = Applied \<or> row_status r = Failed"
    for r
  proof (cases "connectable env")
    case False
    assume "r \<in> set (ensure_migration_table (tracking (migrate env tbl w)))"
    with False show ?thesis by (simp add: migrate_unreachable)
  next
    case True
    assume "r \<in> set (ensure_migration_table (tracking (migrate env tbl w)))"
    with True have "r \<in> set (run_rows (apply_all env (ensure_migration_table tbl) w
                 (to_apply env (ensure_migration_table tbl))))"
      by (simp add: migrate_tracking ensure_migration_table_def)
    then show ?thesis by (rule written_status)
  qed
  have "\<forall>r \<in> set (ensure_migration_table (tracking (main env argv tbl w))).
      r \<in> set (ensure_migration_table tbl) \<or> row_status r = Applied \<or> row_status r = Failed"
    using m by (auto simp: main_def Let_def ensure_migration_table_def split: option.splits)
  moreover have "1 < length argv \<and> argv ! 1 = ''rollback'' \<longrightarrow>
        tracking (main env argv tbl w) = tbl \<and> world (main env argv tbl w) = w"
    by (simp add: main_def Let_def)
  ultimately show ?thesis by blast
qed

theorem runner_writes_applied_or_failed_witness:
  "\<lparr>row_version = ''002'', row_name = ''002_drop'', applied_at = Some 104,
     applied_by = None, checksum = None, execution_time_ms = None, row_status = Failed\<rparr>
     \<in> set (ensure_migration_table (tracking (main halting_env [''migrate.py''] None 0)))
   \<and> (row_status \<lparr>row_version = ''002'', row_name = ''002_drop'', applied_at = Some 104,
     applied_by = None, checksum = None, execution_time_ms = None, row_status = Failed\<rparr> = Applied
      \<or> row_status \<lparr>row_version = ''002'', row_name = ''002_drop'', applied_at = Some 104,
     applied_by = None, checksum = None, execution_time_ms = None, row_status = Failed\<rparr> = Failed)
   \<and> 1 < length [''migrate.py'', ''rollback'', ''002'']
   \<and> [''migrate.py'', ''rollback'', ''002''] ! 1 = ''rollback''
   \<and> tracking (main halting_env [''migrate.py'', ''rollback'', ''002''] None 0) = None"
proof -
  let ?r = "\<lparr>row_version = ''002'', row_name = ''002_drop'', applied_at = Some 104,
     applied_by = None, checksum = None, execution_time_ms = None, row_status = Failed\<rparr>"
  have mem: "?r \<in> set (ensure_migration_table (tracking (main halting_env [''migrate.py''] None 0)))"
    by code_simp
  have old: "?r \<notin> set (ensure_migration_table None)"
    by (simp add: ensure_migration_table_def)
  have a: "1 < length [''migrate.py'', ''rollback'', ''002'']
     \<and> [''migrate.py'', ''rollback'', ''002''] ! 1 = ''rollback''"
    by simp
  from runner_writes_applied_or_failed [of halting_env "[''migrate.py'']" None 0] mem old
  have "row_status ?r = Applied \<or> row_status ?r = Failed"
    by blast
  moreover
  from runner_writes_applied_or_failed [of halting_env "[''migrate.py'', ''rollback'', ''002'']" None 0] a
  have "tracking (main halting_env [''migrate.py'', ''rollback'', ''002''] None 0) = None"
    by blast
  ultimately show ?thesis using mem a by blast
qed

text \<open>
  C4. When the script at position \<open>k\<close> of the apply set fails, it is the last script
  attempted in the run, the tracking table holds its version with status \<open>failed\<close>, and
  the run still ends with the status listing, which shows that row.
\<close>

theorem halt_on_failure:
  assumes "k < length (attempted (migrate env tbl w))"
    and "\<not> succeeded (attempted (migrate env tbl w) ! k)"
  shows "length (attempted (migrate env tbl w)) = Suc k
       \<and> map script (attempted (migrate env tbl w))
           = take (Suc k) (to_apply env (ensure_migration_table tbl))
       \<and> (\<exists>rows. tracking (migrate env tbl w) = Some rows
            \<and> map_option row_status
                 (find (\<lambda>r. row_version r
                             = version (to_apply env (ensure_migration_table tbl) ! k)) rows)
                = Some Failed
            \<and> last (stdout (migrate env tbl w)) = StatusTable (show_status rows)
            \<and> (\<exists>r \<in> set (show_status rows).
                  row_version r = version (to_apply env (ensure_migration_table tbl) ! k)
                  \<and> row_status r = Failed))
       \<and> exit_code (migrate env tbl w) = 0"
proof -
  let ?todo = "to_apply env (ensure_migration_table tbl)"
  let ?run = "apply_all env (ensure_migration_table tbl) w ?todo"
  have c: "connectable env"
    using assms(1) by (cases "connectable env") (simp_all add: migrate_unreachable)
  have att: "attempted (migrate env tbl w) = attempts ?run"
    using c by (rule migrate_attempted)
  have k: "k < length (attempts ?run)" and f: "\<not> succeeded (attempts ?run ! k)"
    using assms att by simp_all
  have len: "length (attempts ?run) = Suc k"
    using k f by (rule failed_attempt_is_last)
  have pre: "map script (attempts ?run) = take (Suc k) ?todo"
    using attempts_prefix [of env "ensure_migration_table tbl" w ?todo] len by simp
  have rec: "raised ?run = None \<and>
     map_option row_status (find (\<lambda>r. row_version r = version (?todo ! k)) (run_rows ?run))
       = Some Failed"
    using k f by (rule failed_attempt_recorded)
  then obtain r where r: "find (\<lambda>r. row_version r = version (?todo ! k)) (run_rows ?run) = Some r"
      and rs: "row_status r = Failed"
    by auto
  from r have "r \<in> set (run_rows ?run) \<and> row_version r = version (?todo ! k)"
    by (auto simp: find_Some_iff)
  then have shown: "\<exists>r \<in> set (show_status (run_rows ?run)).
      row_version r = version (?todo ! k) \<and> row_status r = Failed"
    using rs by (auto simp: show_status_def)
  have rep: "exit_code (migrate env tbl w) = 0 \<and>
     last (stdout (migrate env tbl w)) = StatusTable (show_status (run_rows ?run))"
    using c rec by (simp add: migrate_report)
  have tr: "tracking (migrate env tbl w) = Some (run_rows ?run)"
    using c by (rule migrate_tracking)
  show ?thesis
    using att len pre rec shown rep tr by simp
qed

theorem halt_on_failure_witness:
  "1 < length (attempted (migrate halting_env None 0))
   \<and> \<not> succeeded (attempted (migrate halting_env None 0) ! 1)
   \<and> length (attempted (migrate halting_env None 0)) = 2
   \<and> map script (attempted (migrate halting_env None 0))
        = [mk_migration ''/db'' ''001_init.sql'', mk_migration ''/db'' ''002_drop.sql'']
   \<and> (\<exists>rows. tracking (migrate halting_env None 0) = Some rows
         \<and> map_option row_status (find (\<lambda>r. row_version r = ''002'') rows) = Some Failed)
   \<and> exit_code (migrate halting_env None 0) = 0"
proof -
  have h1: "1 < length (attempted (migrate halting_env None 0))"
    by code_simp
  have h2: "\<not> succeeded (attempted (migrate halting_env None 0) ! 1)"
    by code_simp
  have todo: "to_apply halting_env (ensure_migration_table None)
     = [mk_migration ''/db'' ''001_init.sql'', mk_migration ''/db'' ''002_drop.sql'',
        mk_migration ''/db'' ''003_more.sql'']"
    by code_simp
  have v: "version (mk_migration ''/db'' ''002_drop.sql'') = ''002''"
    by code_simp
  from halt_on_failure [OF h1 h2] h1 h2 todo v show ?thesis
    by auto
qed

text \<open>
  C3. A discovered script whose version the tracking table holds with status
  \<open>applied\<close> is not among the scripts the run attempts, so none of its statements
  is executed; and whatever the file now contains, the run is the same.
\<close>

theorem applied_scripts_are_skipped:
  assumes "m \<in> set (get_pending_migrations (migrations_dir env) (listdir env))"
    and "version m \<in> get_applied_migrations (ensure_migration_table tbl)"
  shows "m \<notin> script ` set (attempted (migrate env tbl w))
       \<and> migrate (env\<lparr>read_file := (read_file env)(filepath m := changed)\<rparr>) tbl w
           = migrate env tbl w"
proof -
  let ?rows = "ensure_migration_table tbl"
  define env' where "env' = env\<lparr>read_file := (read_file env)(filepath m := changed)\<rparr>"
  have skipped: "m \<notin> set (to_apply env ?rows)"
    using assms(2) by (simp add: to_apply_def)
  have first: "m \<notin> script ` set (attempted (migrate env tbl w))"
  proof (cases "connectable env")
    case False
    then show ?thesis by (simp add: migrate_unreachable)
  next
    case True
    then show ?thesis
      using skipped attempts_subset [of env ?rows w "to_apply env ?rows"]
      by (auto simp: migrate_attempted)
  qed
  have other: "\<forall>m' \<in> set (to_apply env ?rows). filepath m' \<noteq> filepath m"
  proof
    fix m' assume m': "m' \<in> set (to_apply env ?rows)"
    then have "m' \<in> set (get_pending_migrations (migrations_dir env) (listdir env))"
      by (simp add: to_apply_def)
    then have "filepath m' = filepath m \<Longrightarrow> m' = m"
      using assms(1) by (rule filepath_determines)
    with m' skipped show "filepath m' \<noteq> filepath m" by blast
  qed
  have todo: "to_apply env' ?rows = to_apply env ?rows"
    by (simp add: to_apply_def env'_def)
  have "apply_all env' ?rows w (to_apply env ?rows) = apply_all env ?rows w (to_apply env ?rows)"
    using other by (intro apply_all_same_services) (simp_all add: env'_def)
  then have "migrate env' tbl w = migrate env tbl w"
    using todo by (rule migrate_same_services) (simp add: env'_def)
  with first show ?thesis
    unfolding env'_def by blast
qed

theorem applied_scripts_are_skipped_witness:
  "mk_migration ''/db'' ''001_init.sql''
     \<in> set (get_pending_migrations (migrations_dir smooth_env) (listdir smooth_env))
   \<and> version (mk_migration ''/db'' ''001_init.sql'')
     \<in> get_applied_migrations (ensure_migration_table (Some [applied_001]))
   \<and> mk_migration ''/db'' ''001_init.sql''
     \<notin> script ` set (attempted (migrate smooth_env (Some [applied_001]) 0))
   \<and> map (version \<circ> script) (attempted (migrate smooth_env (Some [applied_001]) 0))
       = [''002'', ''003'']
   \<and> migrate (smooth_env\<lparr>read_file := (read_file smooth_env)
                (filepath (mk_migration ''/db'' ''001_init.sql'') := Some ''DROP TABLE Foo;'')\<rparr>)
        (Some [applied_001]) 0
      = migrate smooth_env (Some [applied_001]) 0"
proof -
  have h1: "mk_migration ''/db'' ''001_init.sql''
     \<in> set (get_pending_migrations (migrations_dir smooth_env) (listdir smooth_env))"
    by code_simp
  have h2: "version (mk_migration ''/db'' ''001_init.sql'')
     \<in> get_applied_migrations (ensure_migration_table (Some [applied_001]))"
    by code_simp
  have v: "map (version \<circ> script) (attempted (migrate smooth_env (Some [applied_001]) 0))
       = [''002'', ''003'']"
    by code_simp
  from applied_scripts_are_skipped [OF h1 h2, of 0 "Some ''DROP TABLE Foo;''"] h1 h2 v
  show ?thesis by blast
qed

text \<open>
  C6. After a run that ended normally and in which every attempted script succeeded, a
  second run over the same directory attempts no script and leaves the tracking table
  as the first run left it.
\<close>

theorem rerun_applies_nothing:
  assumes "exit_code (migrate env tbl w) = 0"
    and "\<forall>a \<in> set (attempted (migrate env tbl w)). succeeded a"
  shows "attempted (migrate env (tracking (migrate env tbl w)) (world (migrate env tbl w))) = []
       \<and> tracking (migrate env (tracking (migrate env tbl w)) (world (migrate env tbl w)))
           = tracking (migrate env tbl w)"
proof -
  let ?rows = "ensure_migration_table tbl"
  let ?todo = "to_apply env ?rows"
  let ?run = "apply_all env ?rows w ?todo"
  let ?pending = "get_pending_migrations (migrations_dir env) (listdir env)"
  from assms(1) have c: "connectable env" and nr: "raised ?run = None"
    by (simp_all add: migrate_exit_code)
  have ok: "\<forall>a \<in> set (attempts ?run). succeeded a"
    using assms(2) c by (simp add: migrate_attempted)
  have ap: "get_applied_migrations (run_rows ?run)
              = get_applied_migrations ?rows \<union> set (map version ?todo)"
    using nr ok by (rule all_succeeded)
  have "\<forall>m \<in> set ?pending. version m \<in> get_applied_migrations (run_rows ?run)"
    unfolding ap by (auto simp: to_apply_def)
  then have none: "to_apply env (run_rows ?run) = []"
    by (simp add: to_apply_def)
  have tr: "tracking (migrate env tbl w) = Some (run_rows ?run)"
    using c by (rule migrate_tracking)
  have again: "attempted (migrate env (Some (run_rows ?run)) w') = []
         \<and> tracking (migrate env (Some (run_rows ?run)) w') = Some (run_rows ?run)" for w'
    using none c by (simp add: migrate_nothing_to_do)
  show ?thesis
    unfolding tr using again by blast
qed

theorem rerun_applies_nothing_witness:
  "exit_code (migrate smooth_env None 0) = 0
   \<and> map succeeded (attempted (migrate smooth_env None 0)) = [True, True, True]
   \<and> attempted (migrate smooth_env (tracking (migrate smooth_env None 0))
                   (world (migrate smooth_env None 0))) = []
   \<and> tracking (migrate smooth_env (tracking (migrate smooth_env None 0))
                   (world (migrate smooth_env None 0)))
       = tracking (migrate smooth_env None 0)"
proof -
  have h1: "exit_code (migrate smooth_env None 0) = 0"
    by code_simp
  have h2: "\<forall>a \<in> set (attempted (migrate smooth_env None 0)). succeeded a"
    by code_simp
  have n: "map succeeded (attempted (migrate smooth_env None 0)) = [True, True, True]"
    by code_simp
  from rerun_applies_nothing [OF h1 h2] h1 h2 n show ?thesis
    by blast
qed

subsection \<open>Discovery and order\<close>

lemma mk_migration_inj: "mk_migration dir f = mk_migration dir g \<Longrightarrow> f = g"
  by (simp add: mk_migration_def)

lemma version_takeWhile:
  "version (mk_migration dir f) = takeWhile (\<lambda>c. c \<noteq> CHR ''_'') f"
  by (simp add: mk_migration_def split.simps)

lemma underscore_not_digit: "\<not> isdigit (CHR ''_'')"
  by (simp add: isdigit_def)

lemma leading_digits_version:
  "takeWhile (\<lambda>c. c \<noteq> CHR ''_'') f = takeWhile isdigit f \<longleftrightarrow>
     dropWhile isdigit f = [] \<or> hd (dropWhile isdigit f) = CHR ''_''"
proof (induction f)
  case Nil
  then show ?case by simp
next
  case (Cons c cs)
  show ?case
  proof (cases "isdigit c")
    case True
    then have "c \<noteq> CHR ''_''" using underscore_not_digit by auto
    with True Cons.IH show ?thesis by simp
  next
    case False
    then show ?thesis by auto
  qed
qed

text \<open>
  C2 (amended). A name of the listing is discovered exactly when it ends in \<open>.sql\<close>
  and begins with a digit. The version recorded for it is the part of the name before the
  first underscore, the whole name when it has none; this is the leading run of digits
  exactly when that run is followed by an underscore or reaches the end of the name.
\<close>

theorem discovery_rule:
  "set (get_pending_migrations dir listing)
     = mk_migration dir ` {f \<in> set listing. endswith f ''.sql'' \<and> isdigit (hd f)}
   \<and> (mk_migration dir f \<in> set (get_pending_migrations dir listing)
        \<longleftrightarrow> f \<in> set listing \<and> endswith f ''.sql'' \<and> isdigit (hd f))
   \<and> version (mk_migration dir f) = takeWhile (\<lambda>c. c \<noteq> CHR ''_'') f
   \<and> (version (mk_migration dir f) = takeWhile isdigit f
        \<longleftrightarrow> dropWhile isdigit f = [] \<or> hd (dropWhile isdigit f) = CHR ''_'')"
proof -
  have s: "set (get_pending_migrations dir listing)
     = mk_migration dir ` {f \<in> set listing. endswith f ''.sql'' \<and> isdigit (hd f)}"
    by (auto simp: get_pending_migrations_def is_migration_file_def)
  have "mk_migration dir f \<in> set (get_pending_migrations dir listing)
        \<longleftrightarrow> f \<in> set listing \<and> endswith f ''.sql'' \<and> isdigit (hd f)"
    unfolding s using mk_migration_inj by blast
  with s show ?thesis
    by (simp add: version_takeWhile leading_digits_version)
qed

text \<open>
  C2 as stated fails for \<open>001-init.sql\<close>: the file is discovered, its leading run of
  digits is \<open>001\<close>, and the version recorded is the whole name.
\<close>

theorem version_not_leading_digits_counterexample:
  "map version (get_pending_migrations ''/db'' [''001-init.sql'']) = [''001-init.sql'']
   \<and> takeWhile isdigit ''001-init.sql'' = ''001''"
  by code_simp

lemma take_le_take:
  fixes xs ys :: "'a::linorder list"
  shows "xs \<le> ys \<Longrightarrow> take n xs \<le> take n ys"
proof (induction n arbitrary: xs ys)
  case 0
  then show ?case by simp
next
  case (Suc n)
  show ?case
  proof (cases xs)
    case Nil
    then show ?thesis by simp
  next
    case xs: (Cons a x)
    show ?thesis
    proof (cases ys)
      case Nil
      with xs Suc.prems show ?thesis by simp
    next
      case ys: (Cons b y)
      from Suc.prems xs ys have "a < b \<or> a = b \<and> x \<le> y" by simp
      then show ?thesis
      proof
        assume "a < b"
        with xs ys show ?thesis by simp
      next
        assume "a = b \<and> x \<le> y"
        with Suc.IH [of x y] xs ys show ?thesis by simp
      qed
    qed
  qed
qed

lemma version_is_prefix:
  "version (mk_migration dir f) = take (length (version (mk_migration dir f))) f"
  by (simp add: mk_migration_def split.simps takeWhile_eq_take [symmetric])

lemma pending_versions_sorted:
  assumes "\<forall>m \<in> set (get_pending_migrations dir listing). length (version m) = n"
  shows "sorted (map version (get_pending_migrations dir listing))"
proof -
  let ?fs = "filter is_migration_file (sort listing)"
  have v: "version (mk_migration dir f) = take n f" if "f \<in> set ?fs" for f
  proof -
    from that have "mk_migration dir f \<in> set (get_pending_migrations dir listing)"
      by (simp add: get_pending_migrations_def)
    with assms have "length (version (mk_migration dir f)) = n" by blast
    with version_is_prefix [of dir f] show ?thesis by simp
  qed
  have "sorted ?fs"
    by (rule sorted_wrt_filter) simp
  then have "sorted (map (take n) ?fs)"
    unfolding sorted_wrt_map by (rule sorted_wrt_mono_rel [rotated]) (rule take_le_take)
  moreover have "map version (get_pending_migrations dir listing) = map (take n) ?fs"
    using v by (simp add: get_pending_migrations_def)
  ultimately show ?thesis by simp
qed

lemma sort_mset_cong: "mset xs = mset ys \<Longrightarrow> sort xs = sort (ys :: 'a::linorder list)"
  by (metis properties_for_sort sorted_sort mset_sort)

lemma digits_less_carry:
  assumes "length xs = length ys"
    and "\<forall>c \<in> set xs. isdecimal c"
    and "a < b"
  shows "foldl (\<lambda>n c. 10 * n + (of_char c - 48)) a xs
           < foldl (\<lambda>n c. 10 * n + (of_char c - 48)) (b :: nat) ys"
  using assms
proof (induction xs ys arbitrary: a b rule: list_induct2)
  case Nil
  then show ?case by simp
next
  case (Cons x xs y ys)
  from Cons.prems have "(of_char x :: nat) \<le> 57"
    by (simp add: isdecimal_def)
  then have "(of_char x :: nat) - 48 \<le> 9"
    by arith
  with \<open>a < b\<close> have "10 * a + (of_char x - 48) < 10 * b + (of_char y - 48)"
    by linarith
  with Cons.prems Cons.IH show ?case by simp
qed

lemma digits_less:
  assumes "length xs = length ys"
    and "\<forall>c \<in> set xs. isdecimal c"
    and "\<forall>c \<in> set ys. isdecimal c"
    and "xs < ys"
  shows "foldl (\<lambda>n c. 10 * n + (of_char c - 48)) a xs
           < foldl (\<lambda>n c. 10 * n + (of_char c - 48)) (a :: nat) ys"
  using assms
proof (induction xs ys arbitrary: a rule: list_induct2)
  case Nil
  then show ?case by simp
next
  case (Cons x xs y ys)
  from Cons.prems have "x < y \<or> x = y \<and> xs < ys" by simp
  then show ?case
  proof
    assume "x < y"
    then have "(of_char x :: nat) < of_char y" by (simp add: less_char_def)
    moreover from Cons.prems have "48 \<le> (of_char x :: nat)" by (simp add: isdecimal_def)
    ultimately have "10 * a + (of_char x - 48) < 10 * a + (of_char y - 48)"
      by linarith
    with Cons.hyps Cons.prems show ?thesis
      by (simp add: digits_less_carry)
  next
    assume "x = y \<and> xs < ys"
    with Cons.prems Cons.IH show ?thesis by simp
  qed
qed

lemma version_number_less:
  "length u = length v \<Longrightarrow> \<forall>c \<in> set u. isdecimal c \<Longrightarrow> \<forall>c \<in> set v. isdecimal c \<Longrightarrow>
   u < v \<Longrightarrow> version_number u < version_number v"
  unfolding version_number_def by (rule digits_less)

lemma attempted_take:
  "\<exists>k. map script (attempted (migrate env tbl w))
         = take k (filter (\<lambda>m. version m \<notin> get_applied_migrations (ensure_migration_table tbl))
                     (get_pending_migrations (migrations_dir env) (listdir env)))"
proof (cases "connectable env")
  case False
  then have "map script (attempted (migrate env tbl w)) = take 0 (filter (\<lambda>m. version m \<notin> get_applied_migrations (ensure_migration_table tbl))
                     (get_pending_migrations (migrations_dir env) (listdir env)))"
    by (simp add: migrate_unreachable)
  then show ?thesis ..
next
  case True
  have "map script (attempted (migrate env tbl w))
      = take (length (attempted (migrate env tbl w))) (to_apply env (ensure_migration_table tbl))"
    using True attempts_prefix [of env "ensure_migration_table tbl" w
                                  "to_apply env (ensure_migration_table tbl)"]
    by (simp add: migrate_attempted)
  then show ?thesis
    unfolding to_apply_def Let_def ..
qed

text \<open>
  C1 (amended). When the discovered versions are pairwise distinct and all of one width,
  the run attempts the scripts in strictly ascending order of version, as strings and,
  for versions written in decimal digits, as numbers; and another order of the same
  directory listing gives the same run.
\<close>

theorem ascending_order_fixed_width:
  assumes "distinct (map version (get_pending_migrations (migrations_dir env) (listdir env)))"
    and "\<forall>m \<in> set (get_pending_migrations (migrations_dir env) (listdir env)).
           length (version m) = n"
    and "mset listing' = mset (listdir env)"
  shows "sorted_wrt (<) (map (version \<circ> script) (attempted (migrate env tbl w)))
       \<and> ((\<forall>m \<in> set (get_pending_migrations (migrations_dir env) (listdir env)).
              \<forall>c \<in> set (version m). isdecimal c)
            \<longrightarrow> sorted_wrt (<)
                  (map (version_number \<circ> version \<circ> script) (attempted (migrate env tbl w))))
       \<and> migrate (env\<lparr>listdir := listing'\<rparr>) tbl w = migrate env tbl w"
proof -
  let ?pending = "get_pending_migrations (migrations_dir env) (listdir env)"
  let ?rows = "ensure_migration_table tbl"
  from attempted_take [of env tbl w]
  obtain k where k: "map script (attempted (migrate env tbl w))
         = take k (filter (\<lambda>m. version m \<notin> get_applied_migrations ?rows) ?pending)" ..
  have "sorted (map version ?pending)"
    using assms(2) by (rule pending_versions_sorted)
  with assms(1) have "sorted_wrt (<) (map version ?pending)"
    by (simp add: strict_sorted_iff)
  then have strict: "sorted_wrt (\<lambda>a b. version a < version b) ?pending"
    by (simp add: sorted_wrt_map)
  then have "sorted_wrt (\<lambda>a b. version a < version b)
               (take k (filter (\<lambda>m. version m \<notin> get_applied_migrations ?rows) ?pending))"
    by (intro sorted_wrt_take sorted_wrt_filter)
  then have "sorted_wrt (\<lambda>a b. version a < version b) (map script (attempted (migrate env tbl w)))"
    using k by simp
  then have first: "sorted_wrt (<) (map (version \<circ> script) (attempted (migrate env tbl w)))"
    by (simp add: sorted_wrt_map)
  have second: "sorted_wrt (<)
       (map (version_number \<circ> version \<circ> script) (attempted (migrate env tbl w)))"
    if dec: "\<forall>m \<in> set ?pending. \<forall>c \<in> set (version m). isdecimal c"
  proof -
    have "sorted_wrt (\<lambda>a b. version_number (version a) < version_number (version b)) ?pending"
      using strict
    proof (rule sorted_wrt_mono_rel [rotated])
      fix a b
      assume "a \<in> set ?pending" "b \<in> set ?pending" "version a < version b"
      with assms(2) dec show "version_number (version a) < version_number (version b)"
        by (intro version_number_less) auto
    qed
    then have "sorted_wrt (\<lambda>a b. version_number (version a) < version_number (version b))
               (take k (filter (\<lambda>m. version m \<notin> get_applied_migrations ?rows) ?pending))"
      by (intro sorted_wrt_take sorted_wrt_filter)
    then have "sorted_wrt (\<lambda>a b. version_number (version a) < version_number (version b))
               (map script (attempted (migrate env tbl w)))"
      using k by simp
    then show ?thesis
      by (simp add: sorted_wrt_map)
  qed
  define env' where "env' = env\<lparr>listdir := listing'\<rparr>"
  have "sort listing' = sort (listdir env)"
    using assms(3) by (rule sort_mset_cong)
  then have todo: "to_apply env' ?rows = to_apply env ?rows"
    by (simp add: to_apply_def get_pending_migrations_def env'_def)
  have "apply_all env' ?rows w (to_apply env ?rows) = apply_all env ?rows w (to_apply env ?rows)"
    by (intro apply_all_same_services) (simp_all add: env'_def)
  then have "migrate env' tbl w = migrate env tbl w"
    using todo by (rule migrate_same_services) (simp add: env'_def)
  then have third: "migrate (env\<lparr>listdir := listing'\<rparr>) tbl w = migrate env tbl w"
    unfolding env'_def .
  from first second third show ?thesis by blast
qed

theorem ascending_order_fixed_width_witness:
  "distinct (map version (get_pending_migrations (migrations_dir smooth_env) (listdir smooth_env)))
   \<and> map (version \<circ> script) (attempted (migrate smooth_env None 0)) = [''001'', ''002'', ''003'']
   \<and> sorted_wrt (<) (map (version \<circ> script) (attempted (migrate smooth_env None 0)))
   \<and> sorted_wrt (<)
        (map (version_number \<circ> version \<circ> script) (attempted (migrate smooth_env None 0)))
   \<and> migrate (smooth_env\<lparr>listdir := [''001_init.sql'', ''002_drop.sql'', ''003_more.sql'', ''migrate.py'']\<rparr>)
        None 0
      = migrate smooth_env None 0"
proof -
  have h1: "distinct (map version
              (get_pending_migrations (migrations_dir smooth_env) (listdir smooth_env)))"
    by code_simp
  have h2: "\<forall>m \<in> set (get_pending_migrations (migrations_dir smooth_env) (listdir smooth_env)).
              length (version m) = 3"
    by code_simp
  have h3: "mset [''001_init.sql'', ''002_drop.sql'', ''003_more.sql'', ''migrate.py'']
              = mset (listdir smooth_env)"
    by (simp add: scenario_defs)
  have h4: "\<forall>m \<in> set (get_pending_migrations (migrations_dir smooth_env) (listdir smooth_env)).
              \<forall>c \<in> set (version m). isdecimal c"
    by code_simp
  have v: "map (version \<circ> script) (attempted (migrate smooth_env None 0))
             = [''001'', ''002'', ''003'']"
    by code_simp
  from ascending_order_fixed_width [OF h1 h2 h3, of None 0] h1 h4 v show ?thesis
    by blast
qed

text \<open>
  C1 as stated fails for \<open>1_a.sql\<close> and \<open>10_b.sql\<close>: the file names sort with
  \<open>10_b.sql\<close> first, so version \<open>10\<close> is attempted before version \<open>1\<close>.
\<close>

theorem unpadded_versions_counterexample:
  "distinct (map version (get_pending_migrations (migrations_dir unpadded_env) (listdir unpadded_env)))
   \<and> map (version \<circ> script) (attempted (migrate unpadded_env None 0)) = [''10'', ''1'']
   \<and> \<not> sorted_wrt (<) (map (version \<circ> script) (attempted (migrate unpadded_env None 0)))
   \<and> \<not> sorted_wrt (<)
        (map (version_number \<circ> version \<circ> script) (attempted (migrate unpadded_env None 0)))"
  by code_simp

subsection \<open>The statements of a script\<close>

lemma sent_prefix:
  "run_statements ex w ss = (w', sent, r) \<Longrightarrow>
   (\<exists>n. sent = take n (filter is_executed ss)) \<and> (r = None \<longrightarrow> sent = filter is_executed ss)"
proof (induction ss arbitrary: w w' sent r)
  case Nil
  then show ?case by simp
next
  case (Cons s ss)
  show ?case
  proof (cases "is_executed s")
    case False
    with Cons show ?thesis by simp
  next
    case True
    obtain w1 e where ex: "ex w s = (w1, e)" by (cases "ex w s")
    obtain w2 sent2 r2 where rest: "run_statements ex w1 ss = (w2, sent2, r2)"
      by (cases "run_statements ex w1 ss")
    from Cons.IH [OF rest] obtain n
      where n: "sent2 = take n (filter is_executed ss)"
        and all: "r2 = None \<longrightarrow> sent2 = filter is_executed ss"
      by blast
    show ?thesis
    proof (cases "\<exists>msg. e = Some msg \<and> \<not> tolerated msg")
      case stop: True
      with True ex Cons.prems have "sent = take 1 (filter is_executed (s # ss))" and "r \<noteq> None"
        by auto
      then show ?thesis by blast
    next
      case go: False
      with True ex rest Cons.prems have "sent = s # sent2" and "r = r2"
        by (auto split: option.splits)
      with n all True have "sent = take (Suc n) (filter is_executed (s # ss))"
        and "r = None \<longrightarrow> sent = filter is_executed (s # ss)"
        by simp_all
      then show ?thesis by blast
    qed
  qed
qed

lemma executed_fragments:
  "filter is_executed [strip f. f \<leftarrow> xs, strip f \<noteq> []]
     = [strip f. f \<leftarrow> xs, strip f \<noteq> [],
          \<not> startswith (strip f) ''--'', \<not> startswith (strip f) ''/*'']"
  by (induction xs) (simp_all add: is_executed_def)

text \<open>
  What the loop sends to the cursor: the content is split on semicolons, each fragment is
  stripped, the fragments that are then empty and those that begin with \<open>--\<close> or
  \<open>/*\<close> are passed over, and the others are executed in file order, all of them when
  the script succeeds and otherwise an initial part of them.
\<close>

theorem executed_statements:
  assumes "read_file env (filepath m) = Some sql_content"
    and "apply_migration env rows w m = Inr res"
  shows "(\<exists>n. executed res
             = take n [strip f. f \<leftarrow> split (CHR '';'') sql_content, strip f \<noteq> [],
                         \<not> startswith (strip f) ''--'', \<not> startswith (strip f) ''/*''])
       \<and> (ok res \<longrightarrow>
            executed res
              = [strip f. f \<leftarrow> split (CHR '';'') sql_content, strip f \<noteq> [],
                   \<not> startswith (strip f) ''--'', \<not> startswith (strip f) ''/*''])"
proof -
  obtain w' sent r
    where run: "run_statements (exec env) w (statements sql_content) = (w', sent, r)"
    by (cases "run_statements (exec env) w (statements sql_content)")
  from assms run have e: "executed res = sent" and o: "ok res \<longleftrightarrow> r = None"
    by (auto simp: apply_migration_def split: option.splits)
  from sent_prefix [OF run] e o show ?thesis
    by (simp add: statements_def executed_fragments)
qed

theorem executed_statements_witness:
  "read_file commented_env (filepath (mk_migration ''/db'' ''001_init.sql'')) = Some commented_file
   \<and> apply_migration commented_env [] 0 (mk_migration ''/db'' ''001_init.sql'')
       = Inr \<lparr>ok = True,
              rows_after =
                [\<lparr>row_version = ''001'', row_name = ''001_init'', applied_at = Some 101,
                  applied_by = Some ''root@localhost'', checksum = Some (''md5:'' @ commented_file),
                  execution_time_ms = Some 1000, row_status = Applied\<rparr>],
              world_after = 1, executed = [''INSERT INTO Foo VALUES (1)'']\<rparr>
   \<and> [strip f. f \<leftarrow> split (CHR '';'') commented_file, strip f \<noteq> [],
         \<not> startswith (strip f) ''--'', \<not> startswith (strip f) ''/*'']
       = [''INSERT INTO Foo VALUES (1)'']"
proof -
  let ?m = "mk_migration ''/db'' ''001_init.sql''"
  let ?res = "\<lparr>ok = True,
              rows_after =
                [\<lparr>row_version = ''001'', row_name = ''001_init'', applied_at = Some 101,
                  applied_by = Some ''root@localhost'', checksum = Some (''md5:'' @ commented_file),
                  execution_time_ms = Some 1000, row_status = Applied\<rparr>],
              world_after = 1::nat, executed = [''INSERT INTO Foo VALUES (1)'']\<rparr>"
  have h1: "read_file commented_env (filepath ?m) = Some commented_file"
    by code_simp
  have h2: "apply_migration commented_env [] 0 ?m = Inr ?res"
    by code_simp
  from executed_statements [OF h1 h2]
  have "[strip f. f \<leftarrow> split (CHR '';'') commented_file, strip f \<noteq> [],
         \<not> startswith (strip f) ''--'', \<not> startswith (strip f) ''/*'']
       = [''INSERT INTO Foo VALUES (1)'']"
    by simp
  with h1 h2 show ?thesis by blast
qed

text \<open>
  C8. The statements of a script are its fragments between semicolons that are neither
  empty nor pure comments, and all of them are to be executed in file order. The runner
  misses a case: a fragment that begins with a comment line and goes on with a statement
  is not a pure comment, and the test on its first characters drops it together with the
  statement. Here the script creates a table under a comment line and then inserts a row;
  only the insertion is executed, and the script is recorded as applied.
\<close>

theorem statement_after_comment_is_dropped:
  "read_file commented_env (filepath (mk_migration ''/db'' ''001_init.sql'')) = Some commented_file
   \<and> spec_statements commented_file
       = [''-- create the table\<newline>CREATE TABLE Foo (id INT)'', ''INSERT INTO Foo VALUES (1)'']
   \<and> map script (attempted (migrate commented_env None 0)) = [mk_migration ''/db'' ''001_init.sql'']
   \<and> map statements_run (attempted (migrate commented_env None 0))
       = [[''INSERT INTO Foo VALUES (1)'']]
   \<and> map statements_run (attempted (migrate commented_env None 0))
       \<noteq> [spec_statements commented_file]
   \<and> map succeeded (attempted (migrate commented_env None 0)) = [True]"
  by code_simp

subsection \<open>Timestamps\<close>

text \<open>
  C9. Recording a failure for a version that already has a row sets the status and leaves
  \<open>applied_at\<close> as it was: here the row for \<open>002\<close> was rolled back at time 50, the
  script fails at time 104, and the row reads \<open>failed\<close> with \<open>applied_at\<close> still 50.
  The success path sets \<open>applied_at\<close> on update; the failure path does not.
\<close>

theorem failure_keeps_old_timestamp:
  "map (version \<circ> script) (attempted (migrate halting_env (Some [rolled_back_002]) 0))
     = [''001'', ''002'']
   \<and> map succeeded (attempted (migrate halting_env (Some [rolled_back_002]) 0)) = [True, False]
   \<and> current_timestamp halting_env (world (migrate halting_env (Some [rolled_back_002]) 0)) = 104
   \<and> find (\<lambda>r. row_version r = ''002'')
        (ensure_migration_table (tracking (migrate halting_env (Some [rolled_back_002]) 0)))
       = Some (rolled_back_002\<lparr>row_status := Failed\<rparr>)
   \<and> applied_at (rolled_back_002\<lparr>row_status := Failed\<rparr>) = Some 50"
  by code_simp

end
